theory Spec2Isabelle
  imports Main
begin

section \<open>Errors and the object store\<close>

text \<open>
  The only exception the header raises is the \<^verbatim>\<open>std::runtime_error\<close> of
  \<^verbatim>\<open>alignment_range::next\<close>. The iterator's increment starts with
  \<^verbatim>\<open>assert(range_ptr != nullptr)\<close>; following a pointer to an object that is not
  alive is undefined in C++. Both are error values of the model, so that no operation
  silently reads an object that is not there.
\<close>

datatype error =
    runtime_error string
  | assertion_failed
  | invalid_pointer

type_synonym addr = nat

definition no_buffer_msg :: string where
  "no_buffer_msg = ''No alignment execution buffer available.''"

section \<open>The range\<close>

text \<open>
  \<^verbatim>\<open>alignment_range<alignment_executor_type>\<close> has two members: the owning pointer
  \<^verbatim>\<open>std::unique_ptr<alignment_executor_type> alignment_executor{}\<close> (empty is
  \<open>None\<close>) and \<^verbatim>\<open>value_type cache{}\<close>. The executor type is the template
  parameter: the model takes its state type \<open>'e\<close> and its member function
  \<^verbatim>\<open>bump()\<close>, which returns an optional result and may change the executor, as a
  parameter \<open>bump :: 'e \<Rightarrow> 'v option \<times> 'e\<close>. The value-initialised \<^verbatim>\<open>value_type{}\<close>
  is the parameter \<open>dflt\<close>.
\<close>

record ('e, 'v) alignment_range =
  alignment_executor :: "'e option"
  cache :: 'v

type_synonym ('e, 'v) bump_fn = "'e \<Rightarrow> 'v option \<times> 'e"

text \<open>Ranges live at addresses; iterators point at them.\<close>

type_synonym ('e, 'v) store = "addr \<Rightarrow> ('e, 'v) alignment_range option"

text \<open>\<^verbatim>\<open>alignment_range() = default\<close>\<close>

definition alignment_range_default :: "'v \<Rightarrow> ('e, 'v) alignment_range" where
  "alignment_range_default dflt = \<lparr>alignment_executor = None, cache = dflt\<rparr>"

text \<open>\<^verbatim>\<open>explicit alignment_range(alignment_executor_type && _alignment_executor)\<close>\<close>

definition alignment_range_from_executor :: "'v \<Rightarrow> 'e \<Rightarrow> ('e, 'v) alignment_range" where
  "alignment_range_from_executor dflt ex = \<lparr>alignment_executor = Some ex, cache = dflt\<rparr>"

text \<open>
  The defaulted move constructor and move assignment move member by member. Moving a
  \<^verbatim>\<open>unique_ptr\<close> leaves the source empty; what moving a \<^verbatim>\<open>value_type\<close> leaves
  behind is up to that type and is the parameter \<open>residue\<close>. Both return the
  target and the moved-from source. Move assignment destroys the executor the target owned
  before. Source and target are two objects (self-assignment is not modelled).
\<close>

definition alignment_range_move_construct ::
  "('v \<Rightarrow> 'v) \<Rightarrow> ('e, 'v) alignment_range \<Rightarrow> ('e, 'v) alignment_range \<times> ('e, 'v) alignment_range" where
  "alignment_range_move_construct residue src =
     (\<lparr>alignment_executor = alignment_executor src, cache = cache src\<rparr>,
      \<lparr>alignment_executor = None, cache = residue (cache src)\<rparr>)"

definition alignment_range_move_assign ::
  "('v \<Rightarrow> 'v) \<Rightarrow> ('e, 'v) alignment_range \<Rightarrow> ('e, 'v) alignment_range
     \<Rightarrow> ('e, 'v) alignment_range \<times> ('e, 'v) alignment_range" where
  "alignment_range_move_assign residue tgt src =
     (tgt\<lparr>alignment_executor := alignment_executor src, cache := cache src\<rparr>,
      src\<lparr>alignment_executor := None, cache := residue (cache src)\<rparr>)"

text \<open>
  \<^verbatim>\<open>bool next()\<close>. The exception leaves the range as it was, so the range is returned
  in every case, next to the outcome.
\<close>

definition alignment_range_next ::
  "('e, 'v) bump_fn \<Rightarrow> ('e, 'v) alignment_range \<Rightarrow> (error + bool) \<times> ('e, 'v) alignment_range" where
  "alignment_range_next bump r =
     (case alignment_executor r of
        None \<Rightarrow> (Inl (runtime_error no_buffer_msg), r)
      | Some ex \<Rightarrow>
          (case bump ex of
             (Some v, ex') \<Rightarrow> (Inr True, r\<lparr>alignment_executor := Some ex', cache := v\<rparr>)
           | (None, ex') \<Rightarrow> (Inr False, r\<lparr>alignment_executor := Some ex'\<rparr>)))"

text \<open>Calling \<^verbatim>\<open>next()\<close> \<open>n\<close> times in a row, a caller catching each exception.\<close>

fun next_calls ::
  "('e, 'v) bump_fn \<Rightarrow> nat \<Rightarrow> ('e, 'v) alignment_range
     \<Rightarrow> (error + bool) list \<times> ('e, 'v) alignment_range" where
  "next_calls bump 0 r = ([], r)"
| "next_calls bump (Suc n) r =
     (case alignment_range_next bump r of
        (out, r') \<Rightarrow> (case next_calls bump n r' of (outs, r'') \<Rightarrow> (out # outs, r'')))"

section \<open>The sentinel and the iterator\<close>

datatype default_sentinel_t = default_sentinel

text \<open>\<^verbatim>\<open>constexpr sentinel end() noexcept\<close>\<close>

definition range_end :: "default_sentinel_t" where
  "range_end = default_sentinel"

text \<open>
  \<^verbatim>\<open>alignment_range * range_ptr{}\<close> and \<^verbatim>\<open>bool at_end{true}\<close>.
\<close>

record alignment_range_iterator =
  range_ptr :: "addr option"
  at_end :: bool

text \<open>\<^verbatim>\<open>constexpr alignment_range_iterator() noexcept = default\<close>\<close>

definition iterator_default :: alignment_range_iterator where
  "iterator_default = \<lparr>range_ptr = None, at_end = True\<rparr>"

text \<open>The defaulted copy constructor copies both members.\<close>

definition iterator_copy :: "alignment_range_iterator \<Rightarrow> alignment_range_iterator" where
  "iterator_copy it = \<lparr>range_ptr = range_ptr it, at_end = at_end it\<rparr>"

text \<open>
  \<^verbatim>\<open>operator++()\<close>: \<^verbatim>\<open>at_end = !range_ptr->next()\<close>. When \<^verbatim>\<open>next()\<close> throws,
  the assignment does not happen.
\<close>

definition pre_increment ::
  "('e, 'v) bump_fn \<Rightarrow> ('e, 'v) store \<Rightarrow> alignment_range_iterator
     \<Rightarrow> (error + unit) \<times> ('e, 'v) store \<times> alignment_range_iterator" where
  "pre_increment bump h it =
     (case range_ptr it of
        None \<Rightarrow> (Inl assertion_failed, h, it)
      | Some p \<Rightarrow>
          (case h p of
             None \<Rightarrow> (Inl invalid_pointer, h, it)
           | Some r \<Rightarrow>
               (case alignment_range_next bump r of
                  (Inl e, r') \<Rightarrow> (Inl e, h(p \<mapsto> r'), it)
                | (Inr b, r') \<Rightarrow> (Inr (), h(p \<mapsto> r'), it\<lparr>at_end := \<not> b\<rparr>))))"

text \<open>\<^verbatim>\<open>operator++(int)\<close> calls \<^verbatim>\<open>++(*this)\<close> and returns nothing.\<close>

definition post_increment ::
  "('e, 'v) bump_fn \<Rightarrow> ('e, 'v) store \<Rightarrow> alignment_range_iterator
     \<Rightarrow> (error + unit) \<times> ('e, 'v) store \<times> alignment_range_iterator" where
  "post_increment bump h it = pre_increment bump h it"

text \<open>
  \<^verbatim>\<open>alignment_range_iterator(alignment_range & range) : range_ptr(& range)\<close>, with
  \<^verbatim>\<open>at_end\<close> at its default, then \<^verbatim>\<open>++(*this)\<close>. An exception in the constructor
  means no iterator.
\<close>

definition iterator_from_range ::
  "('e, 'v) bump_fn \<Rightarrow> ('e, 'v) store \<Rightarrow> addr
     \<Rightarrow> (error + alignment_range_iterator) \<times> ('e, 'v) store" where
  "iterator_from_range bump h p =
     (case pre_increment bump h \<lparr>range_ptr = Some p, at_end = True\<rparr> of
        (Inl e, h', it) \<Rightarrow> (Inl e, h')
      | (Inr u, h', it) \<Rightarrow> (Inr it, h'))"

text \<open>\<^verbatim>\<open>constexpr iterator begin()\<close> of the range at address \<open>p\<close>.\<close>

definition range_begin ::
  "('e, 'v) bump_fn \<Rightarrow> ('e, 'v) store \<Rightarrow> addr
     \<Rightarrow> (error + alignment_range_iterator) \<times> ('e, 'v) store" where
  "range_begin bump h p = iterator_from_range bump h p"

text \<open>\<^verbatim>\<open>reference operator*() const noexcept\<close>: \<^verbatim>\<open>range_ptr->cache\<close>.\<close>

definition dereference ::
  "('e, 'v) store \<Rightarrow> alignment_range_iterator \<Rightarrow> error + 'v" where
  "dereference h it =
     (case range_ptr it of
        None \<Rightarrow> Inl invalid_pointer
      | Some p \<Rightarrow> (case h p of None \<Rightarrow> Inl invalid_pointer | Some r \<Rightarrow> Inr (cache r)))"

text \<open>The four comparison operators, in the order of the header.\<close>

definition eq_iterator_sentinel :: "alignment_range_iterator \<Rightarrow> default_sentinel_t \<Rightarrow> bool" where
  "eq_iterator_sentinel lhs s = at_end lhs"

definition eq_sentinel_iterator :: "default_sentinel_t \<Rightarrow> alignment_range_iterator \<Rightarrow> bool" where
  "eq_sentinel_iterator lhs rhs = eq_iterator_sentinel rhs lhs"

definition neq_iterator_sentinel :: "alignment_range_iterator \<Rightarrow> default_sentinel_t \<Rightarrow> bool" where
  "neq_iterator_sentinel lhs rhs = (\<not> eq_iterator_sentinel lhs rhs)"

definition neq_sentinel_iterator :: "default_sentinel_t \<Rightarrow> alignment_range_iterator \<Rightarrow> bool" where
  "neq_sentinel_iterator lhs rhs = neq_iterator_sentinel rhs lhs"

section \<open>Sequences of calls\<close>

text \<open>\<open>n\<close> increments of one iterator, stopping at the first exception.\<close>

fun increments ::
  "('e, 'v) bump_fn \<Rightarrow> nat \<Rightarrow> ('e, 'v) store \<Rightarrow> alignment_range_iterator
     \<Rightarrow> (error + unit) \<times> ('e, 'v) store \<times> alignment_range_iterator" where
  "increments bump 0 h it = (Inr (), h, it)"
| "increments bump (Suc n) h it =
     (case pre_increment bump h it of
        (Inl e, h', it') \<Rightarrow> (Inl e, h', it')
      | (Inr u, h', it') \<Rightarrow> increments bump n h' it')"

text \<open>
  A caller's sequence of increments and comparisons with the sentinel on one iterator. The
  comparisons take the iterator by const reference and change nothing; their results are
  collected in call order. The sequence stops at the first exception.
\<close>

datatype iterator_op = Pre_increment | Post_increment | Equals_end | End_equals

fun run_ops ::
  "('e, 'v) bump_fn \<Rightarrow> iterator_op list \<Rightarrow> ('e, 'v) store \<Rightarrow> alignment_range_iterator
     \<Rightarrow> (error + bool list) \<times> ('e, 'v) store \<times> alignment_range_iterator" where
  "run_ops bump [] h it = (Inr [], h, it)"
| "run_ops bump (Pre_increment # ops) h it =
     (case pre_increment bump h it of
        (Inl e, h', it') \<Rightarrow> (Inl e, h', it')
      | (Inr u, h', it') \<Rightarrow> run_ops bump ops h' it')"
| "run_ops bump (Post_increment # ops) h it =
     (case post_increment bump h it of
        (Inl e, h', it') \<Rightarrow> (Inl e, h', it')
      | (Inr u, h', it') \<Rightarrow> run_ops bump ops h' it')"
| "run_ops bump (Equals_end # ops) h it =
     (case run_ops bump ops h it of
        (Inl e, h', it') \<Rightarrow> (Inl e, h', it')
      | (Inr bs, h', it') \<Rightarrow> (Inr (eq_iterator_sentinel it range_end # bs), h', it'))"
| "run_ops bump (End_equals # ops) h it =
     (case run_ops bump ops h it of
        (Inl e, h', it') \<Rightarrow> (Inl e, h', it')
      | (Inr bs, h', it') \<Rightarrow> (Inr (eq_sentinel_iterator range_end it # bs), h', it'))"

text \<open>
  \<^verbatim>\<open>auto it = range.begin();\<close> followed by \<open>k\<close> increments of \<open>it\<close>.
\<close>

definition begin_then_increments ::
  "('e, 'v) bump_fn \<Rightarrow> nat \<Rightarrow> ('e, 'v) store \<Rightarrow> addr
     \<Rightarrow> (error + alignment_range_iterator) \<times> ('e, 'v) store" where
  "begin_then_increments bump k h p =
     (case range_begin bump h p of
        (Inl e, h') \<Rightarrow> (Inl e, h')
      | (Inr it, h') \<Rightarrow>
          (case increments bump k h' it of
             (Inl e, h'', it') \<Rightarrow> (Inl e, h'')
           | (Inr u, h'', it') \<Rightarrow> (Inr it', h'')))"

section \<open>What an executor yields\<close>

text \<open>
  The executor after \<open>n\<close> calls of \<^verbatim>\<open>bump()\<close>, and what call number \<open>n\<close> (counted
  from 0) returns.
\<close>

fun executor_after :: "('e, 'v) bump_fn \<Rightarrow> nat \<Rightarrow> 'e \<Rightarrow> 'e" where
  "executor_after bump 0 ex = ex"
| "executor_after bump (Suc n) ex = executor_after bump n (snd (bump ex))"

definition nth_bump :: "('e, 'v) bump_fn \<Rightarrow> 'e \<Rightarrow> nat \<Rightarrow> 'v option" where
  "nth_bump bump ex n = fst (bump (executor_after bump n ex))"

text \<open>
  The state of an iterator that was obtained from the range at \<open>p\<close>, whose executor
  started as \<open>ex0\<close>: the range is alive and owns the executor as it is after some number
  \<open>n\<close> of calls of \<^verbatim>\<open>bump()\<close>, and if the iterator's flag is set, call number
  \<open>n\<close> will report the end of the stream.
\<close>

definition live_cursor ::
  "('e, 'v) bump_fn \<Rightarrow> 'e \<Rightarrow> addr \<Rightarrow> ('e, 'v) store \<Rightarrow> alignment_range_iterator \<Rightarrow> bool" where
  "live_cursor bump ex0 p h it \<longleftrightarrow>
     range_ptr it = Some p \<and>
     (\<exists>r n. h p = Some r \<and> alignment_executor r = Some (executor_after bump n ex0) \<and>
            (at_end it \<longrightarrow> nth_bump bump ex0 n = None))"

text \<open>
  Modelled from the spec: the executor type is the template parameter of the header and is
  not defined in it. The spec's producer (4.2) returns a present value while results are
  left and empty on every call after that; its scenarios use producers that yield a fixed
  list such as 5, 7, 2. This executor hands out the results of a list one by one, then
  reports the end of the stream on every further call, and counts the calls of
  \<^verbatim>\<open>bump()\<close> it has received. It is used for evaluating the model on concrete
  inputs only.
\<close>

record 'v list_executor =
  pending :: "'v list"
  bump_calls :: nat

definition list_bump :: "('v list_executor, 'v) bump_fn" where
  "list_bump ex =
     (case pending ex of
        [] \<Rightarrow> (None, ex\<lparr>bump_calls := Suc (bump_calls ex)\<rparr>)
      | v # vs \<Rightarrow> (Some v, \<lparr>pending = vs, bump_calls = Suc (bump_calls ex)\<rparr>))"

definition list_executor_of :: "'v list \<Rightarrow> 'v list_executor" where
  "list_executor_of vs = \<lparr>pending = vs, bump_calls = 0\<rparr>"

section \<open>Lemmas about single calls\<close>

lemma next_without_executor:
  "alignment_executor r = None \<Longrightarrow>
     alignment_range_next bump r = (Inl (runtime_error no_buffer_msg), r)"
  by (simp add: alignment_range_next_def)

lemma next_calls_without_executor:
  "alignment_executor r = None \<Longrightarrow>
     next_calls bump n r = (replicate n (Inl (runtime_error no_buffer_msg)), r)"
  by (induction n) (simp_all add: next_without_executor)

lemma pre_increment_live:
  assumes "range_ptr it = Some p" "h p = Some r" "alignment_executor r = Some ex"
  shows "pre_increment bump h it =
           (Inr (),
            h(p \<mapsto> (case fst (bump ex) of
                       Some v \<Rightarrow> r\<lparr>alignment_executor := Some (snd (bump ex)), cache := v\<rparr>
                     | None \<Rightarrow> r\<lparr>alignment_executor := Some (snd (bump ex))\<rparr>)),
            it\<lparr>at_end := (fst (bump ex) = None)\<rparr>)"
  using assms
  by (cases "bump ex") (auto simp: pre_increment_def alignment_range_next_def split: option.splits)

lemma pre_increment_range_ptr:
  "pre_increment bump h it = (out, h', it') \<Longrightarrow> range_ptr it' = range_ptr it"
  by (auto simp: pre_increment_def split: option.splits sum.splits prod.splits)

lemma pre_increment_keeps_objects:
  "pre_increment bump h it = (out, h', it') \<Longrightarrow> h q \<noteq> None \<Longrightarrow> h' q \<noteq> None"
  by (auto simp: pre_increment_def split: option.splits sum.splits prod.splits if_splits)

lemma increments_range_ptr:
  "increments bump n h it = (out, h', it') \<Longrightarrow> range_ptr it' = range_ptr it"
proof (induction n arbitrary: h it)
  case 0
  then show ?case by simp
next
  case (Suc n)
  obtain o1 h1 it1 where step: "pre_increment bump h it = (o1, h1, it1)"
    by (cases "pre_increment bump h it") auto
  then have ptr1: "range_ptr it1 = range_ptr it"
    by (rule pre_increment_range_ptr)
  show ?case
  proof (cases o1)
    case (Inl e)
    with Suc.prems step ptr1 show ?thesis by simp
  next
    case (Inr u)
    with Suc.prems step have "increments bump n h1 it1 = (out, h', it')" by simp
    then have "range_ptr it' = range_ptr it1" by (rule Suc.IH)
    with ptr1 show ?thesis by simp
  qed
qed

lemma increments_keeps_objects:
  "increments bump n h it = (out, h', it') \<Longrightarrow> h q \<noteq> None \<Longrightarrow> h' q \<noteq> None"
proof (induction n arbitrary: h it)
  case 0
  then show ?case by simp
next
  case (Suc n)
  obtain o1 h1 it1 where step: "pre_increment bump h it = (o1, h1, it1)"
    by (cases "pre_increment bump h it") auto
  then have live1: "h1 q \<noteq> None"
    using Suc.prems(2) by (rule pre_increment_keeps_objects)
  show ?case
  proof (cases o1)
    case (Inl e)
    with Suc.prems step live1 show ?thesis by simp
  next
    case (Inr u)
    with Suc.prems step have "increments bump n h1 it1 = (out, h', it')" by simp
    then show ?thesis using live1 by (rule Suc.IH)
  qed
qed

lemma range_begin_result:
  assumes "range_begin bump h p = (Inr it, h')"
  shows "range_ptr it = Some p \<and> h' p \<noteq> None"
  using assms
  by (auto simp: range_begin_def iterator_from_range_def pre_increment_def
      split: option.splits sum.splits prod.splits)

section \<open>Lemmas about the results of an executor\<close>

lemma nth_bump_0: "nth_bump bump ex 0 = fst (bump ex)"
  by (simp add: nth_bump_def)

lemma nth_bump_Suc: "nth_bump bump ex (Suc n) = nth_bump bump (snd (bump ex)) n"
  by (simp add: nth_bump_def)

lemma executor_after_Suc_right:
  "executor_after bump (Suc n) ex = snd (bump (executor_after bump n ex))"
  by (induction n arbitrary: ex) simp_all

lemma increments_all_present:
  assumes "range_ptr it = Some p" "h p = Some r" "alignment_executor r = Some ex"
    and "\<forall>i\<le>k. nth_bump bump ex i \<noteq> None"
  shows "\<exists>h' r'. increments bump (Suc k) h it = (Inr (), h', it\<lparr>at_end := False\<rparr>) \<and>
           h' p = Some r' \<and>
           alignment_executor r' = Some (executor_after bump (Suc k) ex) \<and>
           nth_bump bump ex k = Some (cache r')"
  using assms
proof (induction k arbitrary: h it r ex)
  case 0
  then obtain v where v: "fst (bump ex) = Some v"
    by (auto simp: nth_bump_0)
  with 0 show ?case
    by (simp add: pre_increment_live [of it p h r ex] nth_bump_0)
next
  case (Suc k)
  from Suc.prems(4) have "nth_bump bump ex 0 \<noteq> None" by blast
  then obtain v where v: "fst (bump ex) = Some v"
    by (auto simp: nth_bump_0)
  define r1 where "r1 = r\<lparr>alignment_executor := Some (snd (bump ex)), cache := v\<rparr>"
  define h1 where "h1 = h(p \<mapsto> r1)"
  define it1 where "it1 = it\<lparr>at_end := False\<rparr>"
  have step: "pre_increment bump h it = (Inr (), h1, it1)"
    using Suc.prems(1-3) v by (simp add: pre_increment_live [of it p h r ex] h1_def r1_def it1_def)
  have rest: "\<forall>i\<le>k. nth_bump bump (snd (bump ex)) i \<noteq> None"
  proof (intro allI impI)
    fix i assume "i \<le> k"
    then have "nth_bump bump ex (Suc i) \<noteq> None" using Suc.prems(4) by simp
    then show "nth_bump bump (snd (bump ex)) i \<noteq> None" by (simp add: nth_bump_Suc)
  qed
  have "\<exists>h' r'. increments bump (Suc k) h1 it1 = (Inr (), h', it1\<lparr>at_end := False\<rparr>) \<and>
           h' p = Some r' \<and>
           alignment_executor r' = Some (executor_after bump (Suc k) (snd (bump ex))) \<and>
           nth_bump bump (snd (bump ex)) k = Some (cache r')"
    by (rule Suc.IH [of it1 h1 r1 "snd (bump ex)"])
      (simp_all add: it1_def h1_def r1_def Suc.prems(1) rest)
  then obtain h' r' where
    "increments bump (Suc k) h1 it1 = (Inr (), h', it1\<lparr>at_end := False\<rparr>)"
    "h' p = Some r'"
    "alignment_executor r' = Some (executor_after bump (Suc k) (snd (bump ex)))"
    "nth_bump bump (snd (bump ex)) k = Some (cache r')"
    by blast
  then show ?case
    using step by (simp add: it1_def nth_bump_Suc del: increments.simps(2))
      (simp add: step)
qed

lemma list_bump_simps:
  "list_bump \<lparr>pending = [], bump_calls = c\<rparr> = (None, \<lparr>pending = [], bump_calls = Suc c\<rparr>)"
  "list_bump \<lparr>pending = v # vs, bump_calls = c\<rparr> = (Some v, \<lparr>pending = vs, bump_calls = Suc c\<rparr>)"
  by (simp_all add: list_bump_def)

lemma pending_list_bump: "pending (snd (list_bump ex)) = tl (pending ex)"
  by (simp add: list_bump_def split: list.splits)

lemma fst_list_bump:
  "fst (list_bump ex) = (case pending ex of [] \<Rightarrow> None | v # vs \<Rightarrow> Some v)"
  by (simp add: list_bump_def split: list.splits)

lemma nth_bump_list_bump:
  "nth_bump list_bump ex n = (if n < length (pending ex) then Some (pending ex ! n) else None)"
proof (induction n arbitrary: ex)
  case 0
  then show ?case
    by (simp add: nth_bump_0 fst_list_bump split: list.splits)
next
  case (Suc n)
  show ?case
    by (cases "pending ex") (simp_all add: nth_bump_Suc Suc.IH pending_list_bump)
qed

lemma list_bump_contract:
  "\<forall>n. nth_bump list_bump ex n = None \<longrightarrow> nth_bump list_bump ex (Suc n) = None"
  by (simp add: nth_bump_list_bump)

section \<open>The invariant of an iterator obtained from a range\<close>

lemma live_cursor_pre_increment:
  assumes contract: "\<forall>n. nth_bump bump ex0 n = None \<longrightarrow> nth_bump bump ex0 (Suc n) = None"
    and inv: "live_cursor bump ex0 p h it"
  shows "\<exists>h' it'. pre_increment bump h it = (Inr (), h', it') \<and>
           live_cursor bump ex0 p h' it' \<and> (at_end it \<longrightarrow> at_end it')"
proof -
  from inv obtain r n where ptr: "range_ptr it = Some p" and r: "h p = Some r"
    and ex: "alignment_executor r = Some (executor_after bump n ex0)"
    and ended: "at_end it \<longrightarrow> nth_bump bump ex0 n = None"
    unfolding live_cursor_def by blast
  let ?ex = "executor_after bump n ex0"
  let ?r' = "case fst (bump ?ex) of
               Some v \<Rightarrow> r\<lparr>alignment_executor := Some (snd (bump ?ex)), cache := v\<rparr>
             | None \<Rightarrow> r\<lparr>alignment_executor := Some (snd (bump ?ex))\<rparr>"
  let ?h' = "h(p \<mapsto> ?r')"
  let ?it' = "it\<lparr>at_end := (fst (bump ?ex) = None)\<rparr>"
  have step: "pre_increment bump h it = (Inr (), ?h', ?it')"
    using pre_increment_live [of it p h r ?ex bump] ptr r ex by simp
  have "alignment_executor ?r' = Some (snd (bump ?ex))"
    by (simp split: option.splits)
  then have ex': "alignment_executor ?r' = Some (executor_after bump (Suc n) ex0)"
    by (simp only: executor_after_Suc_right)
  have flag: "at_end ?it' = (nth_bump bump ex0 n = None)"
    by (simp add: nth_bump_def)
  have ended': "at_end ?it' \<longrightarrow> nth_bump bump ex0 (Suc n) = None"
    using contract flag by blast
  have "range_ptr ?it' = Some p" "?h' p = Some ?r'"
    using ptr by simp_all
  then have "live_cursor bump ex0 p ?h' ?it'"
    unfolding live_cursor_def using ex' ended' by blast
  moreover have "at_end it \<longrightarrow> at_end ?it'"
    using ended flag by blast
  ultimately show ?thesis
    using step by blast
qed

lemma live_cursor_run_ops:
  assumes contract: "\<forall>n. nth_bump bump ex0 n = None \<longrightarrow> nth_bump bump ex0 (Suc n) = None"
    and inv: "live_cursor bump ex0 p h it"
  shows "\<exists>bs h' it'. run_ops bump ops h it = (Inr bs, h', it') \<and>
           live_cursor bump ex0 p h' it' \<and>
           (at_end it \<longrightarrow> at_end it' \<and> (\<forall>b\<in>set bs. b))"
  using inv
proof (induction ops arbitrary: h it)
  case Nil
  then show ?case by simp
next
  case (Cons op ops)
  show ?case
  proof (cases op)
    case Pre_increment
    from live_cursor_pre_increment [OF contract Cons.prems]
    obtain h1 it1 where step: "pre_increment bump h it = (Inr (), h1, it1)"
      and inv1: "live_cursor bump ex0 p h1 it1" and mono: "at_end it \<longrightarrow> at_end it1"
      by blast
    from Cons.IH [OF inv1] obtain bs h' it' where
      "run_ops bump ops h1 it1 = (Inr bs, h', it')" "live_cursor bump ex0 p h' it'"
      "at_end it1 \<longrightarrow> at_end it' \<and> (\<forall>b\<in>set bs. b)"
      by blast
    then show ?thesis
      using Pre_increment step mono by auto
  next
    case Post_increment
    from live_cursor_pre_increment [OF contract Cons.prems]
    obtain h1 it1 where step: "pre_increment bump h it = (Inr (), h1, it1)"
      and inv1: "live_cursor bump ex0 p h1 it1" and mono: "at_end it \<longrightarrow> at_end it1"
      by blast
    from Cons.IH [OF inv1] obtain bs h' it' where
      "run_ops bump ops h1 it1 = (Inr bs, h', it')" "live_cursor bump ex0 p h' it'"
      "at_end it1 \<longrightarrow> at_end it' \<and> (\<forall>b\<in>set bs. b)"
      by blast
    then show ?thesis
      using Post_increment step mono by (auto simp: post_increment_def)
  next
    case Equals_end
    from Cons.IH [OF Cons.prems] obtain bs h' it' where
      "run_ops bump ops h it = (Inr bs, h', it')" "live_cursor bump ex0 p h' it'"
      "at_end it \<longrightarrow> at_end it' \<and> (\<forall>b\<in>set bs. b)"
      by blast
    then show ?thesis
      using Equals_end by (auto simp: eq_iterator_sentinel_def)
  next
    case End_equals
    from Cons.IH [OF Cons.prems] obtain bs h' it' where
      "run_ops bump ops h it = (Inr bs, h', it')" "live_cursor bump ex0 p h' it'"
      "at_end it \<longrightarrow> at_end it' \<and> (\<forall>b\<in>set bs. b)"
      by blast
    then show ?thesis
      using End_equals by (auto simp: eq_iterator_sentinel_def eq_sentinel_iterator_def)
  qed
qed

lemma live_cursor_begin:
  assumes contract: "\<forall>n. nth_bump bump ex0 n = None \<longrightarrow> nth_bump bump ex0 (Suc n) = None"
    and r: "h p = Some r" and ex: "alignment_executor r = Some ex0"
    and start: "range_begin bump h p = (Inr it0, h0)"
  shows "live_cursor bump ex0 p h0 it0"
proof -
  let ?r' = "case fst (bump ex0) of
               Some v \<Rightarrow> r\<lparr>alignment_executor := Some (snd (bump ex0)), cache := v\<rparr>
             | None \<Rightarrow> r\<lparr>alignment_executor := Some (snd (bump ex0))\<rparr>"
  have "pre_increment bump h \<lparr>range_ptr = Some p, at_end = True\<rparr> =
          (Inr (), h(p \<mapsto> ?r'), \<lparr>range_ptr = Some p, at_end = True\<rparr>\<lparr>at_end := (fst (bump ex0) = None)\<rparr>)"
    using pre_increment_live [of "\<lparr>range_ptr = Some p, at_end = True\<rparr>" p h r ex0 bump] r ex by simp
  with start have it0: "it0 = \<lparr>range_ptr = Some p, at_end = (fst (bump ex0) = None)\<rparr>"
    and h0: "h0 = h(p \<mapsto> ?r')"
    by (simp_all add: range_begin_def iterator_from_range_def)
  have ex': "alignment_executor ?r' = Some (executor_after bump (Suc 0) ex0)"
    by (simp split: option.splits)
  have "at_end it0 \<longrightarrow> nth_bump bump ex0 0 = None"
    using it0 by (simp add: nth_bump_0)
  then have ended: "at_end it0 \<longrightarrow> nth_bump bump ex0 (Suc 0) = None"
    using contract by blast
  have "range_ptr it0 = Some p" "h0 p = Some ?r'"
    using it0 h0 by simp_all
  then show ?thesis
    unfolding live_cursor_def using ex' ended by blast
qed

section \<open>Properties of the range\<close>

text \<open>
  C3. A default-constructed range owns no executor, and every call of \<open>next()\<close> on it
  throws the runtime error and leaves the range as it was: any number of calls in a row
  gives that same exception each time, never a returned \<open>false\<close>.
\<close>

theorem default_range_next_always_throws:
  "alignment_executor (alignment_range_default dflt :: ('e, 'v) alignment_range) = None \<and>
   alignment_range_next bump (alignment_range_default dflt :: ('e, 'v) alignment_range)
     = (Inl (runtime_error no_buffer_msg), alignment_range_default dflt) \<and>
   next_calls bump n (alignment_range_default dflt :: ('e, 'v) alignment_range)
     = (replicate n (Inl (runtime_error no_buffer_msg)), alignment_range_default dflt)"
  by (simp add: next_without_executor next_calls_without_executor alignment_range_default_def)

text \<open>
  C6. When the range owns an executor, one call of \<open>next()\<close> leaves the range owning
  that executor after exactly one \<open>bump()\<close>. If the bump yielded a value, \<open>next()\<close>
  returns true and the cache holds that value; if it reported the end of the stream,
  \<open>next()\<close> returns false and the cache is what it was before the call.
\<close>

theorem next_bumps_exactly_once:
  assumes "alignment_executor r = Some ex"
  shows "alignment_executor (snd (alignment_range_next bump r)) = Some (snd (bump ex)) \<and>
         (case fst (bump ex) of
            Some v \<Rightarrow> fst (alignment_range_next bump r) = Inr True \<and>
                      cache (snd (alignment_range_next bump r)) = v
          | None \<Rightarrow> fst (alignment_range_next bump r) = Inr False \<and>
                    cache (snd (alignment_range_next bump r)) = cache r)"
  using assms
  by (cases "bump ex") (auto simp: alignment_range_next_def split: option.splits)

theorem next_bumps_exactly_once_witness:
  "alignment_executor (alignment_range_from_executor (0::int) (list_executor_of [5, 7, 2]))
     = Some (list_executor_of [5, 7, 2]) \<and>
   alignment_range_next list_bump (alignment_range_from_executor (0::int) (list_executor_of [5, 7, 2]))
     = (Inr True, \<lparr>alignment_executor = Some \<lparr>pending = [7, 2], bump_calls = 1\<rparr>, cache = 5\<rparr>) \<and>
   alignment_range_next list_bump \<lparr>alignment_executor = Some \<lparr>pending = [], bump_calls = 3\<rparr>, cache = (2::int)\<rparr>
     = (Inr False, \<lparr>alignment_executor = Some \<lparr>pending = [], bump_calls = 4\<rparr>, cache = 2\<rparr>)"
  using next_bumps_exactly_once [of "alignment_range_from_executor (0::int) (list_executor_of [5, 7, 2])"
      "list_executor_of [5, 7, 2]" list_bump]
    next_bumps_exactly_once [of "\<lparr>alignment_executor = Some \<lparr>pending = [], bump_calls = 3\<rparr>, cache = (2::int)\<rparr>"
      "\<lparr>pending = [], bump_calls = 3\<rparr>" list_bump]
  by (simp add: alignment_range_from_executor_def list_executor_of_def list_bump_def
      alignment_range_next_def)

text \<open>
  C5. Let the range \<open>a\<close> own an executor \<open>ex\<close>. After move construction from \<open>a\<close>,
  and after move assignment of \<open>a\<close> to a range \<open>b\<close>, the moved-from range owns no
  executor and any number of calls of \<open>next()\<close> on it throw the runtime error; the target
  owns \<open>ex\<close> and has the cache of \<open>a\<close>, and \<open>next()\<close> on the target does what it
  would have done on \<open>a\<close>: it bumps \<open>ex\<close> once and returns whether that bump yielded a
  value. If the bump yields \<open>v\<close>, the target's \<open>next()\<close> returns true and its cache is
  \<open>v\<close>, the executor's next result; if the bump reports the end of the stream, it returns
  false and the target's cache is still the cache of \<open>a\<close>.
\<close>

theorem move_transfers_executor:
  assumes "alignment_executor a = Some ex"
  shows "alignment_executor (snd (alignment_range_move_construct residue a)) = None \<and>
         next_calls bump n (snd (alignment_range_move_construct residue a))
           = (replicate n (Inl (runtime_error no_buffer_msg)),
              snd (alignment_range_move_construct residue a)) \<and>
         alignment_executor (fst (alignment_range_move_construct residue a)) = Some ex \<and>
         cache (fst (alignment_range_move_construct residue a)) = cache a \<and>
         alignment_range_next bump (fst (alignment_range_move_construct residue a))
           = alignment_range_next bump a \<and>
         alignment_executor (snd (alignment_range_move_assign residue b a)) = None \<and>
         next_calls bump n (snd (alignment_range_move_assign residue b a))
           = (replicate n (Inl (runtime_error no_buffer_msg)),
              snd (alignment_range_move_assign residue b a)) \<and>
         alignment_executor (fst (alignment_range_move_assign residue b a)) = Some ex \<and>
         cache (fst (alignment_range_move_assign residue b a)) = cache a \<and>
         alignment_range_next bump (fst (alignment_range_move_assign residue b a))
           = alignment_range_next bump a \<and>
         fst (alignment_range_next bump a) = Inr (fst (bump ex) \<noteq> None) \<and>
         alignment_executor (snd (alignment_range_next bump a)) = Some (snd (bump ex)) \<and>
         alignment_executor
             (snd (alignment_range_next bump (fst (alignment_range_move_construct residue a))))
           = Some (snd (bump ex)) \<and>
         (case fst (bump ex) of
            Some v \<Rightarrow>
              alignment_range_next bump (fst (alignment_range_move_construct residue a))
                = (Inr True, \<lparr>alignment_executor = Some (snd (bump ex)), cache = v\<rparr>)
          | None \<Rightarrow>
              alignment_range_next bump (fst (alignment_range_move_construct residue a))
                = (Inr False, \<lparr>alignment_executor = Some (snd (bump ex)), cache = cache a\<rparr>)) \<and>
         alignment_executor
             (snd (alignment_range_next bump (fst (alignment_range_move_assign residue b a))))
           = Some (snd (bump ex)) \<and>
         (case fst (bump ex) of
            Some v \<Rightarrow>
              alignment_range_next bump (fst (alignment_range_move_assign residue b a))
                = (Inr True, \<lparr>alignment_executor = Some (snd (bump ex)), cache = v\<rparr>)
          | None \<Rightarrow>
              alignment_range_next bump (fst (alignment_range_move_assign residue b a))
                = (Inr False, \<lparr>alignment_executor = Some (snd (bump ex)), cache = cache a\<rparr>))"
proof -
  have mc: "fst (alignment_range_move_construct residue a) = a"
    by (simp add: alignment_range_move_construct_def)
  have ma: "fst (alignment_range_move_assign residue b a) = a"
    by (simp add: alignment_range_move_assign_def)
  have mc_src: "alignment_executor (snd (alignment_range_move_construct residue a)) = None"
    by (simp add: alignment_range_move_construct_def)
  have ma_src: "alignment_executor (snd (alignment_range_move_assign residue b a)) = None"
    by (simp add: alignment_range_move_assign_def)
  have nxt: "fst (alignment_range_next bump a) = Inr (fst (bump ex) \<noteq> None) \<and>
             alignment_executor (snd (alignment_range_next bump a)) = Some (snd (bump ex))"
    using assms by (cases "bump ex") (auto simp: alignment_range_next_def split: option.splits)
  have pull: "case fst (bump ex) of
                Some v \<Rightarrow> alignment_range_next bump a
                  = (Inr True, \<lparr>alignment_executor = Some (snd (bump ex)), cache = v\<rparr>)
              | None \<Rightarrow> alignment_range_next bump a
                  = (Inr False, \<lparr>alignment_executor = Some (snd (bump ex)), cache = cache a\<rparr>)"
    using assms by (cases "bump ex") (auto simp: alignment_range_next_def split: option.splits)
  have pull_mc: "case fst (bump ex) of
                Some v \<Rightarrow> alignment_range_next bump (fst (alignment_range_move_construct residue a))
                  = (Inr True, \<lparr>alignment_executor = Some (snd (bump ex)), cache = v\<rparr>)
              | None \<Rightarrow> alignment_range_next bump (fst (alignment_range_move_construct residue a))
                  = (Inr False, \<lparr>alignment_executor = Some (snd (bump ex)), cache = cache a\<rparr>)"
    unfolding mc by (rule pull)
  have pull_ma: "case fst (bump ex) of
                Some v \<Rightarrow> alignment_range_next bump (fst (alignment_range_move_assign residue b a))
                  = (Inr True, \<lparr>alignment_executor = Some (snd (bump ex)), cache = v\<rparr>)
              | None \<Rightarrow> alignment_range_next bump (fst (alignment_range_move_assign residue b a))
                  = (Inr False, \<lparr>alignment_executor = Some (snd (bump ex)), cache = cache a\<rparr>)"
    unfolding ma by (rule pull)
  have rest: "alignment_executor (snd (alignment_range_move_construct residue a)) = None \<and>
         next_calls bump n (snd (alignment_range_move_construct residue a))
           = (replicate n (Inl (runtime_error no_buffer_msg)),
              snd (alignment_range_move_construct residue a)) \<and>
         alignment_executor (fst (alignment_range_move_construct residue a)) = Some ex \<and>
         cache (fst (alignment_range_move_construct residue a)) = cache a \<and>
         alignment_range_next bump (fst (alignment_range_move_construct residue a))
           = alignment_range_next bump a \<and>
         alignment_executor (snd (alignment_range_move_assign residue b a)) = None \<and>
         next_calls bump n (snd (alignment_range_move_assign residue b a))
           = (replicate n (Inl (runtime_error no_buffer_msg)),
              snd (alignment_range_move_assign residue b a)) \<and>
         alignment_executor (fst (alignment_range_move_assign residue b a)) = Some ex \<and>
         cache (fst (alignment_range_move_assign residue b a)) = cache a \<and>
         alignment_range_next bump (fst (alignment_range_move_assign residue b a))
           = alignment_range_next bump a \<and>
         fst (alignment_range_next bump a) = Inr (fst (bump ex) \<noteq> None) \<and>
         alignment_executor (snd (alignment_range_next bump a)) = Some (snd (bump ex))"
    using assms nxt mc_src ma_src
    by (simp add: mc ma next_calls_without_executor)
  have ex_mc: "alignment_executor
             (snd (alignment_range_next bump (fst (alignment_range_move_construct residue a))))
           = Some (snd (bump ex))"
    using nxt by (simp add: mc)
  have ex_ma: "alignment_executor
             (snd (alignment_range_next bump (fst (alignment_range_move_assign residue b a))))
           = Some (snd (bump ex))"
    using nxt by (simp add: ma)
  from rest ex_mc pull_mc ex_ma pull_ma show ?thesis
    by (intro conjI) (elim conjE, assumption)+
qed


theorem move_transfers_executor_witness:
  "alignment_range_move_construct id
       \<lparr>alignment_executor = Some \<lparr>pending = [7, 2], bump_calls = 1\<rparr>, cache = (5::int)\<rparr>
     = (\<lparr>alignment_executor = Some \<lparr>pending = [7, 2], bump_calls = 1\<rparr>, cache = 5\<rparr>,
        \<lparr>alignment_executor = None, cache = 5\<rparr>) \<and>
   alignment_range_next list_bump
       (fst (alignment_range_move_construct id
          \<lparr>alignment_executor = Some \<lparr>pending = [7, 2], bump_calls = 1\<rparr>, cache = (5::int)\<rparr>))
     = (Inr True, \<lparr>alignment_executor = Some \<lparr>pending = [2], bump_calls = 2\<rparr>, cache = 7\<rparr>) \<and>
   next_calls list_bump 3
       (snd (alignment_range_move_construct id
          \<lparr>alignment_executor = Some \<lparr>pending = [7, 2], bump_calls = 1\<rparr>, cache = (5::int)\<rparr>))
     = ([Inl (runtime_error no_buffer_msg), Inl (runtime_error no_buffer_msg),
         Inl (runtime_error no_buffer_msg)],
        \<lparr>alignment_executor = None, cache = 5\<rparr>) \<and>
   alignment_range_move_assign id (alignment_range_default 0)
       \<lparr>alignment_executor = Some \<lparr>pending = [7, 2], bump_calls = 1\<rparr>, cache = (5::int)\<rparr>
     = (\<lparr>alignment_executor = Some \<lparr>pending = [7, 2], bump_calls = 1\<rparr>, cache = 5\<rparr>,
        \<lparr>alignment_executor = None, cache = 5\<rparr>) \<and>
   alignment_range_next list_bump
       (fst (alignment_range_move_assign id (alignment_range_default 0)
          \<lparr>alignment_executor = Some \<lparr>pending = [7, 2], bump_calls = 1\<rparr>, cache = (5::int)\<rparr>))
     = (Inr True, \<lparr>alignment_executor = Some \<lparr>pending = [2], bump_calls = 2\<rparr>, cache = 7\<rparr>)"
  using move_transfers_executor
    [of "\<lparr>alignment_executor = Some \<lparr>pending = [7, 2], bump_calls = 1\<rparr>, cache = (5::int)\<rparr>"
      "\<lparr>pending = [7, 2], bump_calls = 1\<rparr>" id list_bump 3 "alignment_range_default 0"]
  by (simp add: alignment_range_move_construct_def alignment_range_move_assign_def
      alignment_range_default_def alignment_range_next_def list_bump_simps
      numeral_2_eq_2 numeral_3_eq_3)


section \<open>Properties of the iterator\<close>

text \<open>
  C7. An iterator equals the sentinel exactly when its \<open>at_end\<close> flag is set, the
  comparison with the sentinel on the left gives the same value, and both inequalities are
  the negations of the equalities.
\<close>

theorem sentinel_comparisons:
  "eq_iterator_sentinel c s = at_end c \<and>
   eq_sentinel_iterator s c = eq_iterator_sentinel c s \<and>
   neq_iterator_sentinel c s = (\<not> eq_iterator_sentinel c s) \<and>
   neq_sentinel_iterator s c = (\<not> eq_sentinel_iterator s c)"
  by (simp add: eq_iterator_sentinel_def eq_sentinel_iterator_def
      neq_iterator_sentinel_def neq_sentinel_iterator_def)

text \<open>
  C9. A default-constructed iterator points at no range, has its \<open>at_end\<close> flag set, and
  compares equal to the sentinel from either side.
\<close>

theorem default_iterator_equals_sentinel:
  "range_ptr iterator_default = None \<and>
   at_end iterator_default \<and>
   eq_iterator_sentinel iterator_default range_end \<and>
   eq_sentinel_iterator range_end iterator_default \<and>
   \<not> neq_iterator_sentinel iterator_default range_end"
  by (simp add: iterator_default_def eq_iterator_sentinel_def eq_sentinel_iterator_def
      neq_iterator_sentinel_def)

text \<open>
  C1. When the range at \<open>p\<close> owns an executor whose first bump yields \<open>v\<close>,
  \<open>begin()\<close> returns an iterator that points at the range and is not at the end, the
  executor has been bumped exactly once, and dereferencing the iterator gives \<open>v\<close> with
  no increment by the caller.
\<close>

theorem begin_primes_first_result:
  assumes "h p = Some r" "alignment_executor r = Some ex" "fst (bump ex) = Some v"
  shows "range_begin bump h p =
           (Inr \<lparr>range_ptr = Some p, at_end = False\<rparr>,
            h(p \<mapsto> r\<lparr>alignment_executor := Some (executor_after bump 1 ex), cache := v\<rparr>)) \<and>
         dereference (snd (range_begin bump h p)) \<lparr>range_ptr = Some p, at_end = False\<rparr> = Inr v"
  using assms
  by (simp add: range_begin_def iterator_from_range_def pre_increment_live [of _ p h r ex]
      dereference_def)

theorem begin_primes_first_result_witness:
  "range_begin list_bump [0 \<mapsto> alignment_range_from_executor (0::int) (list_executor_of [5, 7, 2])] 0
     = (Inr \<lparr>range_ptr = Some 0, at_end = False\<rparr>,
        [0 \<mapsto> \<lparr>alignment_executor = Some \<lparr>pending = [7, 2], bump_calls = 1\<rparr>, cache = 5\<rparr>]) \<and>
   dereference [0 \<mapsto> \<lparr>alignment_executor = Some \<lparr>pending = [7, 2 :: int], bump_calls = 1\<rparr>, cache = (5::int)\<rparr>]
       \<lparr>range_ptr = Some 0, at_end = False\<rparr> = Inr 5"
  using begin_primes_first_result [of "[0 \<mapsto> alignment_range_from_executor (0::int) (list_executor_of [5, 7, 2])]"
      0 "alignment_range_from_executor (0::int) (list_executor_of [5, 7, 2])" "list_executor_of [5, 7, 2]"
      list_bump 5]
  by (simp add: alignment_range_from_executor_def list_executor_of_def list_bump_simps
      dereference_def)

text \<open>
  C8. When the range at \<open>p\<close> owns no executor, \<open>begin()\<close> throws the runtime error of
  \<open>next()\<close> out of the iterator's constructor: no iterator is returned and the store is
  unchanged.
\<close>

theorem begin_without_executor_throws:
  assumes "h p = Some r" "alignment_executor r = None"
  shows "range_begin bump h p = (Inl (runtime_error no_buffer_msg), h)"
proof -
  have "h(p \<mapsto> r) = h" using assms(1) by (rule map_upd_triv)
  then show ?thesis
    using assms
    by (simp add: range_begin_def iterator_from_range_def pre_increment_def
        next_without_executor)
qed

theorem begin_without_executor_throws_witness:
  "range_begin list_bump [0 \<mapsto> alignment_range_default (0::int)] 0
     = (Inl (runtime_error no_buffer_msg), [0 \<mapsto> alignment_range_default 0]) \<and>
   range_begin list_bump
       [1 \<mapsto> snd (alignment_range_move_construct id
                    (alignment_range_from_executor (0::int) (list_executor_of [5, 7, 2])))] 1
     = (Inl (runtime_error ''No alignment execution buffer available.''),
        [1 \<mapsto> \<lparr>alignment_executor = None, cache = 0\<rparr>])"
  using begin_without_executor_throws [of "[0 \<mapsto> alignment_range_default (0::int)]" 0
      "alignment_range_default 0" list_bump]
    begin_without_executor_throws [of "[1 \<mapsto> snd (alignment_range_move_construct id
                    (alignment_range_from_executor (0::int) (list_executor_of [5, 7, 2])))]" 1
      "snd (alignment_range_move_construct id
                    (alignment_range_from_executor (0::int) (list_executor_of [5, 7, 2])))" list_bump]
  by (simp add: alignment_range_default_def alignment_range_move_construct_def
      alignment_range_from_executor_def no_buffer_msg_def)

text \<open>
  C2. When bumps number \<open>0\<close> to \<open>k\<close> of the range's executor yield the values
  \<open>rs 0\<close> to \<open>rs k\<close>, then \<open>begin()\<close> followed by \<open>k\<close> increments succeeds, the
  iterator is not at the end, the executor has been bumped exactly \<open>k + 1\<close> times, and
  dereferencing gives \<open>rs k\<close>: after \<open>N = k + 1\<close> successful pulls the iterator shows
  the \<open>N\<close>-th result, for every \<open>N\<close>, so no result is skipped, repeated or out of
  order.
\<close>

theorem nth_pull_is_nth_result:
  assumes "h p = Some r" "alignment_executor r = Some ex"
    and "\<forall>i\<le>k. nth_bump bump ex i = Some (rs i)"
  shows "\<exists>h' r'. begin_then_increments bump k h p = (Inr \<lparr>range_ptr = Some p, at_end = False\<rparr>, h') \<and>
           dereference h' \<lparr>range_ptr = Some p, at_end = False\<rparr> = Inr (rs k) \<and>
           h' p = Some r' \<and>
           alignment_executor r' = Some (executor_after bump (Suc k) ex)"
proof -
  let ?it0 = "\<lparr>range_ptr = Some p, at_end = True\<rparr>"
  have present: "\<forall>i\<le>k. nth_bump bump ex i \<noteq> None"
    using assms(3) by simp
  have "\<exists>h' r'. increments bump (Suc k) h ?it0 = (Inr (), h', ?it0\<lparr>at_end := False\<rparr>) \<and>
           h' p = Some r' \<and>
           alignment_executor r' = Some (executor_after bump (Suc k) ex) \<and>
           nth_bump bump ex k = Some (cache r')"
    using increments_all_present [of ?it0 p h r ex k bump] assms(1,2) present by simp
  then obtain h' r' where run:
    "increments bump (Suc k) h ?it0 = (Inr (), h', ?it0\<lparr>at_end := False\<rparr>)"
    "h' p = Some r'"
    "alignment_executor r' = Some (executor_after bump (Suc k) ex)"
    "nth_bump bump ex k = Some (cache r')"
    by blast
  have cache: "cache r' = rs k"
    using run(4) assms(3) by simp
  have "begin_then_increments bump k h p = (Inr \<lparr>range_ptr = Some p, at_end = False\<rparr>, h')"
    using run(1)
    by (auto simp: begin_then_increments_def range_begin_def iterator_from_range_def
        split: prod.splits sum.splits)
  then show ?thesis
    using run(2,3) cache by (auto simp: dereference_def)
qed

theorem nth_pull_is_nth_result_witness:
  "begin_then_increments list_bump 2
       [0 \<mapsto> alignment_range_from_executor 0 (list_executor_of [5, 7, 2 :: int])] 0
     = (Inr \<lparr>range_ptr = Some 0, at_end = False\<rparr>,
        [0 \<mapsto> \<lparr>alignment_executor = Some \<lparr>pending = [], bump_calls = 3\<rparr>, cache = 2\<rparr>]) \<and>
   (\<exists>h'. begin_then_increments list_bump 2
            [0 \<mapsto> alignment_range_from_executor 0 (list_executor_of [5, 7, 2 :: int])] 0
          = (Inr \<lparr>range_ptr = Some 0, at_end = False\<rparr>, h') \<and>
        dereference h' \<lparr>range_ptr = Some 0, at_end = False\<rparr> = Inr 2)"
proof -
  let ?h = "[0 \<mapsto> alignment_range_from_executor 0 (list_executor_of [5, 7, 2 :: int])]"
  have results: "\<forall>i\<le>2. nth_bump list_bump (list_executor_of [5, 7, 2 :: int]) i = Some ([5, 7, 2] ! i)"
    by (simp add: nth_bump_list_bump list_executor_of_def)
  have "\<exists>h' r'. begin_then_increments list_bump 2 ?h 0
          = (Inr \<lparr>range_ptr = Some 0, at_end = False\<rparr>, h') \<and>
        dereference h' \<lparr>range_ptr = Some 0, at_end = False\<rparr> = Inr ([5, 7, 2] ! 2) \<and>
        h' 0 = Some r' \<and>
        alignment_executor r' = Some (executor_after list_bump (Suc 2) (list_executor_of [5, 7, 2]))"
    using nth_pull_is_nth_result [of ?h
      0 "alignment_range_from_executor 0 (list_executor_of [5, 7, 2 :: int])"
      "list_executor_of [5, 7, 2]" 2 list_bump "\<lambda>i. [5, 7, 2] ! i"] results
    by (simp add: alignment_range_from_executor_def)
  then have derived: "\<exists>h'. begin_then_increments list_bump 2 ?h 0
          = (Inr \<lparr>range_ptr = Some 0, at_end = False\<rparr>, h') \<and>
        dereference h' \<lparr>range_ptr = Some 0, at_end = False\<rparr> = Inr 2"
    by auto
  have computed: "begin_then_increments list_bump 2 ?h 0
     = (Inr \<lparr>range_ptr = Some 0, at_end = False\<rparr>,
        [0 \<mapsto> \<lparr>alignment_executor = Some \<lparr>pending = [], bump_calls = 3\<rparr>, cache = 2\<rparr>])"
    by (simp add: begin_then_increments_def range_begin_def iterator_from_range_def
        pre_increment_def alignment_range_next_def alignment_range_from_executor_def
        list_executor_of_def list_bump_simps numeral_2_eq_2 numeral_3_eq_3)
  from computed derived show ?thesis by (rule conjI)
qed


text \<open>
  C4. Let the executor of the range at \<open>p\<close> keep reporting the end of the stream once it
  has reported it. Take an iterator from \<open>begin()\<close>, run any sequence of increments and
  comparisons on it, and let it then compare equal to the sentinel. Then any further
  sequence of increments and comparisons runs without an exception, every comparison in it
  reports equality with the sentinel, and the iterator equals the sentinel at its end.
\<close>

theorem exhausted_cursor_stays_exhausted:
  assumes "h p = Some r" "alignment_executor r = Some ex"
    and "\<forall>n. nth_bump bump ex n = None \<longrightarrow> nth_bump bump ex (Suc n) = None"
    and "range_begin bump h p = (Inr it0, h0)"
    and "run_ops bump ops1 h0 it0 = (Inr bs1, h1, it1)"
    and "eq_iterator_sentinel it1 range_end"
  shows "\<exists>bs2 h2 it2. run_ops bump ops2 h1 it1 = (Inr bs2, h2, it2) \<and>
           (\<forall>b\<in>set bs2. b) \<and>
           eq_iterator_sentinel it2 range_end \<and> eq_sentinel_iterator range_end it2"
proof -
  have inv0: "live_cursor bump ex p h0 it0"
    by (rule live_cursor_begin [OF assms(3) assms(1) assms(2) assms(4)])
  from live_cursor_run_ops [OF assms(3) inv0, of ops1] assms(5)
  have inv1: "live_cursor bump ex p h1 it1" by auto
  have ended: "at_end it1"
    using assms(6) by (simp add: eq_iterator_sentinel_def)
  from live_cursor_run_ops [OF assms(3) inv1, of ops2] ended
  show ?thesis
    by (auto simp: eq_iterator_sentinel_def eq_sentinel_iterator_def)
qed

theorem exhausted_cursor_stays_exhausted_witness:
  "run_ops list_bump [Equals_end, Pre_increment, End_equals, Post_increment, Equals_end]
       [0 \<mapsto> \<lparr>alignment_executor = Some \<lparr>pending = [], bump_calls = 2\<rparr>, cache = (9::int)\<rparr>]
       \<lparr>range_ptr = Some 0, at_end = True\<rparr>
     = (Inr [True, True, True],
        [0 \<mapsto> \<lparr>alignment_executor = Some \<lparr>pending = [], bump_calls = 4\<rparr>, cache = 9\<rparr>],
        \<lparr>range_ptr = Some 0, at_end = True\<rparr>) \<and>
   (\<exists>bs2 h2 it2.
     run_ops list_bump [Equals_end, Pre_increment, End_equals, Post_increment, Equals_end]
       [0 \<mapsto> \<lparr>alignment_executor = Some \<lparr>pending = [], bump_calls = 2\<rparr>, cache = (9::int)\<rparr>]
       \<lparr>range_ptr = Some 0, at_end = True\<rparr> = (Inr bs2, h2, it2) \<and>
     eq_iterator_sentinel it2 range_end \<and> eq_sentinel_iterator range_end it2)"
proof -
  let ?r = "alignment_range_from_executor (0::int) (list_executor_of [9])"
  let ?h1 = "[0 \<mapsto> \<lparr>alignment_executor = Some \<lparr>pending = [], bump_calls = 2\<rparr>, cache = (9::int)\<rparr>]"
  let ?ops2 = "[Equals_end, Pre_increment, End_equals, Post_increment, Equals_end]"
  have 1: "[0 \<mapsto> ?r] 0 = Some ?r" by simp
  have 2: "alignment_executor ?r = Some (list_executor_of [9])"
    by (simp add: alignment_range_from_executor_def)
  have 4: "range_begin list_bump [0 \<mapsto> ?r] 0 =
             (Inr \<lparr>range_ptr = Some 0, at_end = False\<rparr>,
              [0 \<mapsto> \<lparr>alignment_executor = Some \<lparr>pending = [], bump_calls = 1\<rparr>, cache = 9\<rparr>])"
    by (simp add: range_begin_def iterator_from_range_def pre_increment_def
        alignment_range_next_def alignment_range_from_executor_def list_executor_of_def
        list_bump_simps)
  have 5: "run_ops list_bump [Equals_end, Pre_increment]
             [0 \<mapsto> \<lparr>alignment_executor = Some \<lparr>pending = [], bump_calls = 1\<rparr>, cache = (9::int)\<rparr>]
             \<lparr>range_ptr = Some 0, at_end = False\<rparr> =
             (Inr [False], ?h1, \<lparr>range_ptr = Some 0, at_end = True\<rparr>)"
    by (simp add: pre_increment_def alignment_range_next_def list_bump_simps
        eq_iterator_sentinel_def numeral_2_eq_2)
  have 6: "eq_iterator_sentinel \<lparr>range_ptr = Some 0, at_end = True\<rparr> range_end"
    by (simp add: eq_iterator_sentinel_def)
  have "\<exists>bs2 h2 it2. run_ops list_bump ?ops2 ?h1 \<lparr>range_ptr = Some 0, at_end = True\<rparr>
            = (Inr bs2, h2, it2) \<and> (\<forall>b\<in>set bs2. b) \<and>
          eq_iterator_sentinel it2 range_end \<and> eq_sentinel_iterator range_end it2"
    by (rule exhausted_cursor_stays_exhausted [OF 1 2 list_bump_contract 4 5 6])
  then have derived: "\<exists>bs2 h2 it2. run_ops list_bump ?ops2 ?h1 \<lparr>range_ptr = Some 0, at_end = True\<rparr>
            = (Inr bs2, h2, it2) \<and>
          eq_iterator_sentinel it2 range_end \<and> eq_sentinel_iterator range_end it2"
    by blast
  have computed: "run_ops list_bump ?ops2 ?h1 \<lparr>range_ptr = Some 0, at_end = True\<rparr>
     = (Inr [True, True, True],
        [0 \<mapsto> \<lparr>alignment_executor = Some \<lparr>pending = [], bump_calls = 4\<rparr>, cache = 9\<rparr>],
        \<lparr>range_ptr = Some 0, at_end = True\<rparr>)"
    by (simp add: pre_increment_def post_increment_def alignment_range_next_def list_bump_simps
        eq_iterator_sentinel_def eq_sentinel_iterator_def eval_nat_numeral)
  from computed derived show ?thesis by (rule conjI)
qed


text \<open>
  C10. Take an iterator \<open>c1\<close> from \<open>begin()\<close> that is not at the end, copy it to
  \<open>c2\<close>, and increment \<open>c1\<close> until it is at the end. The flag of \<open>c2\<close> is still the
  one it was copied with, so \<open>c2\<close> compares unequal to the sentinel while \<open>c1\<close> compares
  equal, and both dereference to the cache of the one range they point at.
\<close>

theorem at_end_is_per_iterator:
  assumes "range_begin bump h p = (Inr c1, h1)"
    and "\<not> at_end c1"
    and "c2 = iterator_copy c1"
    and "increments bump n h1 c1 = (Inr (), h2, c1')"
    and "at_end c1'"
  shows "at_end c2 = at_end c1 \<and>
         neq_iterator_sentinel c2 range_end \<and>
         eq_iterator_sentinel c1' range_end \<and>
         (\<exists>r2. h2 p = Some r2 \<and> dereference h2 c2 = Inr (cache r2) \<and>
                dereference h2 c1' = Inr (cache r2))"
proof -
  from range_begin_result [OF assms(1)] have ptr1: "range_ptr c1 = Some p" and live1: "h1 p \<noteq> None"
    by simp_all
  have ptr2: "range_ptr c2 = Some p"
    using assms(3) ptr1 by (simp add: iterator_copy_def)
  have ptr1': "range_ptr c1' = Some p"
    using increments_range_ptr [OF assms(4)] ptr1 by simp
  from increments_keeps_objects [OF assms(4) live1] obtain r2 where r2: "h2 p = Some r2"
    by blast
  have flag: "at_end c2 = at_end c1"
    using assms(3) by (simp add: iterator_copy_def)
  show ?thesis
    using flag assms(2,5) r2 ptr2 ptr1'
    by (simp add: neq_iterator_sentinel_def eq_iterator_sentinel_def dereference_def)
qed

theorem at_end_is_per_iterator_witness:
  "at_end (iterator_copy \<lparr>range_ptr = Some 0, at_end = False\<rparr>) = False \<and>
   neq_iterator_sentinel (iterator_copy \<lparr>range_ptr = Some 0, at_end = False\<rparr>) range_end \<and>
   eq_iterator_sentinel \<lparr>range_ptr = Some 0, at_end = True\<rparr> range_end \<and>
   dereference [0 \<mapsto> \<lparr>alignment_executor = Some \<lparr>pending = [] :: int list, bump_calls = 3\<rparr>, cache = (7::int)\<rparr>]
     (iterator_copy \<lparr>range_ptr = Some 0, at_end = False\<rparr>) = Inr 7 \<and>
   dereference [0 \<mapsto> \<lparr>alignment_executor = Some \<lparr>pending = [] :: int list, bump_calls = 3\<rparr>, cache = (7::int)\<rparr>]
     \<lparr>range_ptr = Some 0, at_end = True\<rparr> = Inr 7"
proof -
  let ?h = "[0 \<mapsto> alignment_range_from_executor (0::int) (list_executor_of [5, 7])]"
  let ?h1 = "[0 \<mapsto> \<lparr>alignment_executor = Some \<lparr>pending = [7], bump_calls = 1\<rparr>, cache = (5::int)\<rparr>]"
  let ?h2 = "[0 \<mapsto> \<lparr>alignment_executor = Some \<lparr>pending = [], bump_calls = 3\<rparr>, cache = (7::int)\<rparr>]"
  let ?c1 = "\<lparr>range_ptr = Some 0, at_end = False\<rparr>"
  let ?c1' = "\<lparr>range_ptr = Some 0, at_end = True\<rparr>"
  have 1: "range_begin list_bump ?h 0 = (Inr ?c1, ?h1)"
    by (simp add: range_begin_def iterator_from_range_def pre_increment_def
        alignment_range_next_def alignment_range_from_executor_def list_executor_of_def
        list_bump_simps)
  have 2: "\<not> at_end ?c1" by simp
  have 4: "increments list_bump 2 ?h1 ?c1 = (Inr (), ?h2, ?c1')"
    by (simp add: numeral_2_eq_2 numeral_3_eq_3 pre_increment_def alignment_range_next_def
        list_bump_simps)
  have 5: "at_end ?c1'" by simp
  from at_end_is_per_iterator [OF 1 2 refl 4 5]
  show ?thesis
    by (auto simp: iterator_copy_def)
qed

end
